theory Spec2Isabelle
  imports Main "HOL-Library.Word"
begin

section \<open>Data model of \<open>SuperMarioBrosEnv\<close> (smb\_env.py)\<close>

text \<open>
  The emulator exposes the console RAM as an array of unsigned bytes (\<open>self.ram\<close>, a numpy
  \<open>uint8\<close> array of \<open>0x800\<close> cells). Every address the environment reads or writes is a constant
  below \<open>0x800\<close>, so a cell access never leaves the array; the RAM is a function from addresses to
  bytes and \<open>ram_size\<close> is kept for the one place where the length matters, the slice of
  \<open>_read_mem_range\<close>, which numpy clips at the end of the array.
\<close>

type_synonym byte = "8 word"
type_synonym memory = "nat \<Rightarrow> byte"

definition ram_size :: nat where
  "ram_size = 0x800"

text \<open>The exceptions the modelled code can raise.\<close>

datatype error = ValueError

text \<open>
  The instance attributes of the environment. \<open>hidden\<close> is the part of the emulator state that is
  not RAM (CPU, PPU, ...); \<open>inputs\<close> records, oldest first, the controller bytes handed to
  \<open>_frame_advance\<close>, so that the frames a routine advances can be observed. The three target
  fields are what \<open>decode_target\<close> returned at construction (\<open>None\<close> in Python is \<open>None\<close> here).
\<close>

record 'h env =
  ram :: memory
  hidden :: 'h
  inputs :: "byte list"
  target_world :: "int option"
  target_stage :: "int option"
  target_area :: "int option"
  time_last :: int
  last_frame_x_position :: int
  last_frame_y_position :: int

text \<open>\<open>_STATUS_MAP\<close>, \<open>_BUSY_STATES\<close>, \<open>_ENEMY_TYPE_ADDRESSES\<close>, \<open>_STAGE_OVER_ENEMIES\<close>.\<close>

definition STATUS_MAP :: "byte \<Rightarrow> string" where
  "STATUS_MAP b = (if b = 0 then ''small'' else if b = 1 then ''tall'' else ''fireball'')"

definition BUSY_STATES :: "byte list" where
  "BUSY_STATES = [0x00, 0x01, 0x02, 0x03, 0x04, 0x05, 0x07]"

definition ENEMY_TYPE_ADDRESSES :: "nat list" where
  "ENEMY_TYPE_ADDRESSES = [0x0016, 0x0017, 0x0018, 0x0019, 0x001A]"

definition STAGE_OVER_ENEMIES :: "byte list" where
  "STAGE_OVER_ENEMIES = [0x2D, 0x31]"

definition is_single_stage_env :: "'h env \<Rightarrow> bool" where
  "is_single_stage_env e \<longleftrightarrow> target_world e \<noteq> None \<and> target_area e \<noteq> None"

section \<open>Memory access\<close>

text \<open>
  \<open>str\<close> of an unsigned byte: its decimal numeral, 1 to 3 characters, no leading zero.
\<close>

definition digit_char :: "nat \<Rightarrow> char" where
  "digit_char d = ''0123456789'' ! d"

definition str_u8 :: "byte \<Rightarrow> string" where
  "str_u8 b =
     (let n = unat b in
      if n < 10 then [digit_char n]
      else if n < 100 then [digit_char (n div 10), digit_char (n mod 10)]
      else [digit_char (n div 100), digit_char (n div 10 mod 10), digit_char (n mod 10)])"

text \<open>
  \<open>int(s)\<close> on the strings that \<open>"".join(map(str, bytes))\<close> produces: a non-empty string of
  decimal digits is read in base 10 (leading zeros allowed), the empty string raises
  \<open>ValueError\<close>. Strings with other characters do not arise from \<open>str_u8\<close>.
\<close>

definition is_digit :: "char \<Rightarrow> bool" where
  "is_digit c \<longleftrightarrow> c \<in> set ''0123456789''"

definition digit_val :: "char \<Rightarrow> int" where
  "digit_val c = int (of_char c) - 48"

definition digits_value :: "string \<Rightarrow> int" where
  "digits_value s = foldl (\<lambda>acc c. 10 * acc + digit_val c) 0 s"

definition py_int :: "string \<Rightarrow> error + int" where
  "py_int s = (if s \<noteq> [] \<and> list_all is_digit s then Inr (digits_value s) else Inl ValueError)"

text \<open>\<open>self.ram[address : address + length]\<close>: the slice stops at the end of the array.\<close>

definition ram_slice :: "memory \<Rightarrow> nat \<Rightarrow> nat \<Rightarrow> byte list" where
  "ram_slice m address len = map m [address ..< min (address + len) ram_size]"

definition read_mem_range :: "'h env \<Rightarrow> nat \<Rightarrow> nat \<Rightarrow> error + int" where
  "read_mem_range e address len = py_int (concat (map str_u8 (ram_slice (ram e) address len)))"

definition world :: "'h env \<Rightarrow> int" where
  "world e = uint (ram e 0x075F) + 1"

definition stage :: "'h env \<Rightarrow> int" where
  "stage e = uint (ram e 0x075C) + 1"

definition score :: "'h env \<Rightarrow> error + int" where
  "score e = read_mem_range e 0x07DE 6"

definition time :: "'h env \<Rightarrow> error + int" where
  "time e = read_mem_range e 0x07F8 3"

definition coins :: "'h env \<Rightarrow> error + int" where
  "coins e = read_mem_range e 0x07ED 2"

definition life :: "'h env \<Rightarrow> int" where
  "life e = uint (ram e 0x075A)"

definition x_position :: "'h env \<Rightarrow> int" where
  "x_position e = uint (ram e 0x6D) * 0x100 + uint (ram e 0x86)"

definition y_pixel :: "'h env \<Rightarrow> int" where
  "y_pixel e = uint (ram e 0x03B8)"

definition y_viewport :: "'h env \<Rightarrow> byte" where
  "y_viewport e = ram e 0x00B5"

definition y_position :: "'h env \<Rightarrow> int" where
  "y_position e =
     (if y_viewport e < 1 then 255 + (255 - y_pixel e)
      else if y_viewport e > 1 then - y_pixel e - 1
      else 255 - y_pixel e)"

definition player_status :: "'h env \<Rightarrow> string" where
  "player_status e = STATUS_MAP (ram e 0x0756)"

definition player_state :: "'h env \<Rightarrow> byte" where
  "player_state e = ram e 0x000E"

definition is_dying :: "'h env \<Rightarrow> bool" where
  "is_dying e \<longleftrightarrow> player_state e = 0x0B \<or> y_viewport e > 1"

definition is_dead :: "'h env \<Rightarrow> bool" where
  "is_dead e \<longleftrightarrow> player_state e = 0x06"

definition is_game_over :: "'h env \<Rightarrow> bool" where
  "is_game_over e \<longleftrightarrow> life e = 0xFF"

definition is_busy :: "'h env \<Rightarrow> bool" where
  "is_busy e \<longleftrightarrow> player_state e \<in> set BUSY_STATES"

definition is_world_over :: "'h env \<Rightarrow> bool" where
  "is_world_over e \<longleftrightarrow> ram e 0x0770 = 2"

text \<open>
  The \<open>for\<close> loop of \<open>_is_stage_over\<close>: the first slot that holds a stage-over enemy decides,
  by the float-state byte; no such slot gives \<open>False\<close>.
\<close>

fun stage_over_scan :: "memory \<Rightarrow> nat list \<Rightarrow> bool" where
  "stage_over_scan m [] = False"
| "stage_over_scan m (address # rest) =
     (if m address \<in> set STAGE_OVER_ENEMIES then m 0x001D = 3
      else stage_over_scan m rest)"

definition is_stage_over :: "'h env \<Rightarrow> bool" where
  "is_stage_over e = stage_over_scan (ram e) ENEMY_TYPE_ADDRESSES"

definition flag_get :: "'h env \<Rightarrow> bool" where
  "flag_get e \<longleftrightarrow> is_world_over e \<or> is_stage_over e"

section \<open>RAM hacks and the skip controller\<close>

text \<open>
  \<open>_frame_advance(action)\<close> belongs to the emulator base class: it runs the console for one
  frame under the given controller byte. The emulator is a parameter \<open>fa\<close> of the model, a
  function on RAM and hidden state; the Python-side attributes are out of its reach.
\<close>

type_synonym 'h emulator = "byte \<Rightarrow> memory \<times> 'h \<Rightarrow> memory \<times> 'h"

definition frame_advance :: "'h emulator \<Rightarrow> byte \<Rightarrow> 'h env \<Rightarrow> 'h env" where
  "frame_advance fa action e =
     (case fa action (ram e, hidden e) of
        (m, h) \<Rightarrow> e\<lparr>ram := m, hidden := h, inputs := inputs e @ [action]\<rparr>)"

text \<open>
  \<open>_write_stage\<close> stores the Python integers \<open>target - 1\<close> into byte cells. The resolver that
  produced the target yields world, stage and area numbers from 1 up, far below 256, and for
  those \<open>word_of_int\<close> is the byte stored. Outside 0..255 the array library decides (older
  versions wrap around as \<open>word_of_int\<close> does, newer ones raise); no result below depends on
  that range.
\<close>

definition write_stage :: "'h env \<Rightarrow> 'h env" where
  "write_stage e =
     (case (target_world e, target_stage e, target_area e) of
        (Some w, Some s, Some a) \<Rightarrow>
          e\<lparr>ram := (ram e)(0x075F := word_of_int (w - 1),
                            0x075C := word_of_int (s - 1),
                            0x0760 := word_of_int (a - 1))\<rparr>
      | _ \<Rightarrow> e)"

definition runout_prelevel_timer :: "'h env \<Rightarrow> 'h env" where
  "runout_prelevel_timer e = e\<lparr>ram := (ram e)(0x07A0 := 0)\<rparr>"

definition skip_change_area :: "'h env \<Rightarrow> 'h env" where
  "skip_change_area e =
     (let change_area_timer = ram e 0x06DE in
      if change_area_timer > 1 \<and> change_area_timer < 255
      then e\<lparr>ram := (ram e)(0x06DE := 1)\<rparr> else e)"

text \<open>
  The \<open>while\<close> loops have no bound in the source. Each is a recursion on a fuel argument, the
  number of iterations it may still run; \<open>None\<close> says the fuel ran out before the loop
  condition failed.
\<close>

fun skip_occupied_states :: "'h emulator \<Rightarrow> nat \<Rightarrow> 'h env \<Rightarrow> 'h env option" where
  "skip_occupied_states fa 0 e = (if is_busy e \<or> is_world_over e then None else Some e)"
| "skip_occupied_states fa (Suc n) e =
     (if is_busy e \<or> is_world_over e
      then skip_occupied_states fa n (frame_advance fa 0 (runout_prelevel_timer e))
      else Some e)"

text \<open>Start screen, first loop: \<open>while self._time == 0\<close>.\<close>

fun press_start_loop :: "'h emulator \<Rightarrow> nat \<Rightarrow> 'h env \<Rightarrow> (error + 'h env) option" where
  "press_start_loop fa 0 e =
     (case time e of
        Inl x \<Rightarrow> Some (Inl x)
      | Inr t \<Rightarrow> if t = 0 then None else Some (Inr e))"
| "press_start_loop fa (Suc n) e =
     (case time e of
        Inl x \<Rightarrow> Some (Inl x)
      | Inr t \<Rightarrow>
          if t = 0 then
            (let e1 = frame_advance fa 8 e;
                 e2 = (if is_single_stage_env e1 then write_stage e1 else e1);
                 e3 = frame_advance fa 0 e2
             in press_start_loop fa n (runout_prelevel_timer e3))
          else Some (Inr e))"

text \<open>Start screen, second loop: \<open>while self._time >= self._time_last\<close>.\<close>

fun idle_loop :: "'h emulator \<Rightarrow> nat \<Rightarrow> 'h env \<Rightarrow> (error + 'h env) option" where
  "idle_loop fa 0 e =
     (case time e of
        Inl x \<Rightarrow> Some (Inl x)
      | Inr t \<Rightarrow> if t \<ge> time_last e then None else Some (Inr e))"
| "idle_loop fa (Suc n) e =
     (case time e of
        Inl x \<Rightarrow> Some (Inl x)
      | Inr t \<Rightarrow>
          if t \<ge> time_last e
          then idle_loop fa n (frame_advance fa 0 (frame_advance fa 8 (e\<lparr>time_last := t\<rparr>)))
          else Some (Inr e))"

definition skip_start_screen :: "'h emulator \<Rightarrow> nat \<Rightarrow> 'h env \<Rightarrow> (error + 'h env) option" where
  "skip_start_screen fa fuel e =
     (case press_start_loop fa fuel (frame_advance fa 0 (frame_advance fa 8 e)) of
        None \<Rightarrow> None
      | Some (Inl x) \<Rightarrow> Some (Inl x)
      | Some (Inr e1) \<Rightarrow>
          (case time e1 of
             Inl x \<Rightarrow> Some (Inl x)
           | Inr t \<Rightarrow> idle_loop fa fuel (e1\<lparr>time_last := t\<rparr>)))"

text \<open>\<open>_skip_end_of_world\<close>: \<open>while self._time == time\<close>, entered only when the world is over.\<close>

fun end_of_world_loop :: "'h emulator \<Rightarrow> nat \<Rightarrow> int \<Rightarrow> 'h env \<Rightarrow> (error + 'h env) option" where
  "end_of_world_loop fa 0 t0 e =
     (case time e of
        Inl x \<Rightarrow> Some (Inl x)
      | Inr t \<Rightarrow> if t = t0 then None else Some (Inr e))"
| "end_of_world_loop fa (Suc n) t0 e =
     (case time e of
        Inl x \<Rightarrow> Some (Inl x)
      | Inr t \<Rightarrow> if t = t0 then end_of_world_loop fa n t0 (frame_advance fa 0 e) else Some (Inr e))"

definition skip_end_of_world :: "'h emulator \<Rightarrow> nat \<Rightarrow> 'h env \<Rightarrow> (error + 'h env) option" where
  "skip_end_of_world fa fuel e =
     (if is_world_over e then
        (case time e of
           Inl x \<Rightarrow> Some (Inl x)
         | Inr t0 \<Rightarrow> end_of_world_loop fa fuel t0 e)
      else Some (Inr e))"

definition kill_mario :: "'h emulator \<Rightarrow> 'h env \<Rightarrow> 'h env" where
  "kill_mario fa e = frame_advance fa 0 (e\<lparr>ram := (ram e)(0x000E := 0x06)\<rparr>)"

section \<open>Reward function\<close>

text \<open>
  The three reward properties are evaluated for their value, and \<open>_time_penalty\<close> also assigns
  \<open>self._time_last\<close>. Each returns its value together with the environment it leaves behind.
\<close>

definition x_reward :: "'h env \<Rightarrow> int \<times> 'h env" where
  "x_reward e =
     (let r = x_position e - last_frame_x_position e in
      if r < - 5 \<or> r > 5 then (0, e) else (r, e))"

definition time_penalty :: "'h env \<Rightarrow> error + int \<times> 'h env" where
  "time_penalty e =
     (case time e of
        Inl x \<Rightarrow> Inl x
      | Inr t \<Rightarrow>
          (let r = t - time_last e in
           case time e of
             Inl x \<Rightarrow> Inl x
           | Inr t' \<Rightarrow>
               (let e' = e\<lparr>time_last := t'\<rparr> in
                if r > 0 then Inr (0, e') else Inr (r, e'))))"

definition death_penalty :: "'h env \<Rightarrow> int \<times> 'h env" where
  "death_penalty e = (if is_dying e \<or> is_dead e then (- 25, e) else (0, e))"

section \<open>The nes-py hooks\<close>

definition will_reset :: "'h env \<Rightarrow> 'h env" where
  "will_reset e = e\<lparr>time_last := 0\<rparr>"

definition did_reset :: "'h env \<Rightarrow> error + 'h env" where
  "did_reset e =
     (case time e of
        Inl x \<Rightarrow> Inl x
      | Inr t \<Rightarrow>
          Inr (e\<lparr>time_last := t,
                 last_frame_x_position := x_position e,
                 last_frame_y_position := y_position e\<rparr>))"

definition did_step :: "'h emulator \<Rightarrow> nat \<Rightarrow> bool \<Rightarrow> 'h env \<Rightarrow> (error + 'h env) option" where
  "did_step fa fuel reset_pending e =
     (if reset_pending then Some (Inr e)
      else
        (let e1 = (if is_dying e then kill_mario fa e else e) in
         case (if \<not> is_single_stage_env e1 then skip_end_of_world fa fuel e1 else Some (Inr e1)) of
           None \<Rightarrow> None
         | Some (Inl x) \<Rightarrow> Some (Inl x)
         | Some (Inr e2) \<Rightarrow>
             (case skip_occupied_states fa fuel (skip_change_area e2) of
                None \<Rightarrow> None
              | Some e3 \<Rightarrow> Some (Inr e3))))"

definition get_reward :: "'h env \<Rightarrow> error + int \<times> 'h env" where
  "get_reward e =
     (case x_reward e of
        (rx, e1) \<Rightarrow>
          (case time_penalty e1 of
             Inl x \<Rightarrow> Inl x
           | Inr (rt, e2) \<Rightarrow>
               (case death_penalty e2 of (rd, e3) \<Rightarrow> Inr (rx + rt + rd, e3))))"

definition get_terminated :: "'h env \<Rightarrow> bool" where
  "get_terminated e =
     (if is_single_stage_env e then is_dying e \<or> is_dead e \<or> flag_get e
      else is_game_over e)"

text \<open>The values of the \<open>info\<close> dictionary: integers, booleans and the status string.\<close>

datatype info_value = IInt int | IBool bool | IStr string

definition get_info :: "'h env \<Rightarrow> error + (string \<rightharpoonup> info_value)" where
  "get_info e =
     (case coins e of
        Inl x \<Rightarrow> Inl x
      | Inr c \<Rightarrow>
          (case score e of
             Inl x \<Rightarrow> Inl x
           | Inr sc \<Rightarrow>
               (case time e of
                  Inl x \<Rightarrow> Inl x
                | Inr t \<Rightarrow>
                    Inr (map_of
                      [(''coins'', IInt c),
                       (''flag_get'', IBool (flag_get e)),
                       (''life'', IInt (life e)),
                       (''score'', IInt sc),
                       (''stage'', IInt (stage e)),
                       (''status'', IStr (player_status e)),
                       (''time'', IInt t),
                       (''world'', IInt (world e)),
                       (''x_pos'', IInt (x_position e)),
                       (''y_pos'', IInt (y_position e)),
                       (''x_speed'', IInt (x_position e - last_frame_x_position e)),
                       (''y_speed'', IInt (y_position e - last_frame_y_position e))]))))"

text \<open>
  Modelled from the spec: the base class's \<open>step\<close> (\<open>NESEnv.step\<close> of the emulator package, which
  \<open>super().step(action)\<close> calls and which is not part of the sources). Following section 4.4 of
  the specification it hands the action to the emulator's single-frame advance, runs the
  per-step skip sequence unless a reset is pending, then computes reward, termination and the
  info record from the resulting state. The observation and the truncation flag come from the
  emulator and the surrounding harness and are left out of the result.
\<close>

record step_result =
  reward :: int
  terminated :: bool
  info :: "string \<rightharpoonup> info_value"

definition NESEnv_step ::
    "'h emulator \<Rightarrow> nat \<Rightarrow> bool \<Rightarrow> byte \<Rightarrow> 'h env \<Rightarrow> (error + step_result \<times> 'h env) option" where
  "NESEnv_step fa fuel reset_pending action e =
     (case did_step fa fuel reset_pending (frame_advance fa action e) of
        None \<Rightarrow> None
      | Some (Inl x) \<Rightarrow> Some (Inl x)
      | Some (Inr e1) \<Rightarrow>
          (case get_reward e1 of
             Inl x \<Rightarrow> Some (Inl x)
           | Inr (r, e2) \<Rightarrow>
               (case get_info e2 of
                  Inl x \<Rightarrow> Some (Inl x)
                | Inr i \<Rightarrow>
                    Some (Inr (\<lparr>reward = r, terminated = get_terminated e2, info = i\<rparr>, e2)))))"

definition step ::
    "'h emulator \<Rightarrow> nat \<Rightarrow> bool \<Rightarrow> byte \<Rightarrow> 'h env \<Rightarrow> (error + step_result \<times> 'h env) option" where
  "step fa fuel reset_pending action e =
     NESEnv_step fa fuel reset_pending action
       (e\<lparr>last_frame_x_position := x_position e, last_frame_y_position := y_position e\<rparr>)"

section \<open>The idle phase of the start sequence\<close>

text \<open>
  One iteration of the second loop of \<open>_skip_start_screen\<close>: record the decoded time in
  \<open>_time_last\<close>, then advance one frame with Start pressed and one with no button. Reading
  the clock never raises (lemma \<open>time_total\<close> below), so the first branch is never taken.
\<close>

definition idle_iteration :: "'h emulator \<Rightarrow> 'h env \<Rightarrow> 'h env" where
  "idle_iteration fa e =
     (case time e of
        Inl x \<Rightarrow> e
      | Inr t \<Rightarrow> frame_advance fa 0 (frame_advance fa 8 (e\<lparr>time_last := t\<rparr>)))"

text \<open>
  The idle phase as the specification words it (section 4.2, step (c)): no-op frames are run
  while the decoded time stays equal to its previous value, and the time observed at the end
  of the phase becomes the previous-time baseline.
\<close>

fun spec_idle_phase :: "'h emulator \<Rightarrow> nat \<Rightarrow> 'h env \<Rightarrow> (error + 'h env) option" where
  "spec_idle_phase fa 0 e =
     (case time e of
        Inl x \<Rightarrow> Some (Inl x)
      | Inr t \<Rightarrow> if t = time_last e then None else Some (Inr (e\<lparr>time_last := t\<rparr>)))"
| "spec_idle_phase fa (Suc n) e =
     (case time e of
        Inl x \<Rightarrow> Some (Inl x)
      | Inr t \<Rightarrow>
          if t = time_last e then spec_idle_phase fa n (frame_advance fa 0 e)
          else Some (Inr (e\<lparr>time_last := t\<rparr>)))"

definition spec_skip_start_screen ::
    "'h emulator \<Rightarrow> nat \<Rightarrow> 'h env \<Rightarrow> (error + 'h env) option" where
  "spec_skip_start_screen fa fuel e =
     (case press_start_loop fa fuel (frame_advance fa 0 (frame_advance fa 8 e)) of
        None \<Rightarrow> None
      | Some (Inl x) \<Rightarrow> Some (Inl x)
      | Some (Inr e1) \<Rightarrow>
          (case time e1 of
             Inl x \<Rightarrow> Some (Inl x)
           | Inr t \<Rightarrow> spec_idle_phase fa fuel (e1\<lparr>time_last := t\<rparr>)))"

section \<open>Sample environments\<close>

text \<open>
  Concrete environments on which the results below are instantiated: a blank full-game
  environment (all RAM zero), and the same with a few RAM cells set.
\<close>

definition blank_env :: "nat env" where
  "blank_env = \<lparr>ram = (\<lambda>_. 0), hidden = 0, inputs = [], target_world = None,
     target_stage = None, target_area = None, time_last = 0,
     last_frame_x_position = 0, last_frame_y_position = 0\<rparr>"

definition with_ram :: "(nat \<times> byte) list \<Rightarrow> nat env" where
  "with_ram kvs = blank_env\<lparr>ram := (\<lambda>a. case map_of kvs a of None \<Rightarrow> 0 | Some b \<Rightarrow> b)\<rparr>"

text \<open>
  A scripted emulator: the hidden state counts frames, and the clock digits in RAM show 000
  up to frame 3, 400 on frames 4 and 5, 401 on frames 6 and 7, and 399 from frame 8 on.
\<close>

definition clock_digits :: "nat \<Rightarrow> byte \<times> byte \<times> byte" where
  "clock_digits k =
     (if k < 4 then (0, 0, 0) else if k < 6 then (4, 0, 0) else if k < 8 then (4, 0, 1)
      else (3, 9, 9))"

definition clock_emulator :: "nat emulator" where
  "clock_emulator action mk =
     (case mk of (m, k) \<Rightarrow>
        (case clock_digits (Suc k) of (a, b, c) \<Rightarrow>
           (m(0x07F8 := a, 0x07F9 := b, 0x07FA := c), Suc k)))"

text \<open>
  An emulator that moves the player one pixel to the right each frame (it adds 1 to the x byte
  at 0x86) and counts frames in its hidden state.
\<close>

definition walk_emulator :: "nat emulator" where
  "walk_emulator action mk = (case mk of (m, k) \<Rightarrow> (m(0x86 := m 0x86 + 1), Suc k))"

section \<open>Basic facts about the decoders\<close>

lemma with_ram_ram: "ram (with_ram kvs) a = (case map_of kvs a of None \<Rightarrow> 0 | Some b \<Rightarrow> b)"
  by (simp add: with_ram_def blank_env_def)

lemma digit_char_is_digit: "d < 10 \<Longrightarrow> is_digit (digit_char d)"
proof -
  assume "d < 10"
  then have "d \<in> {0,1,2,3,4,5,6,7,8,9}" by auto
  then show ?thesis by (auto simp: is_digit_def digit_char_def)
qed

lemma digit_val_digit_char: "d < 10 \<Longrightarrow> digit_val (digit_char d) = int d"
proof -
  assume "d < 10"
  then have "d \<in> {0,1,2,3,4,5,6,7,8,9}" by auto
  then show ?thesis by (auto simp: digit_val_def digit_char_def)
qed

lemma str_u8_nonempty: "str_u8 b \<noteq> []"
  by (simp add: str_u8_def Let_def)

lemma str_u8_digits: "list_all is_digit (str_u8 b)"
proof -
  have "unat b < 256" using unsigned_less [of b, where ?'a = nat] by simp
  then have "unat b div 100 < 10" by simp
  then show ?thesis
    by (simp add: str_u8_def Let_def digit_char_is_digit)
qed

lemma str_u8_single: "unat b \<le> 9 \<Longrightarrow> str_u8 b = [digit_char (unat b)]"
  by (simp add: str_u8_def Let_def)

lemma concat_str_u8_digits: "list_all is_digit (concat (map str_u8 bs))"
  by (induction bs) (simp_all add: str_u8_digits)

lemma concat_str_u8_nonempty: "bs \<noteq> [] \<Longrightarrow> concat (map str_u8 bs) \<noteq> []"
  by (cases bs) (simp_all add: str_u8_nonempty)

lemma py_int_concat_str_u8:
  "bs \<noteq> [] \<Longrightarrow> py_int (concat (map str_u8 bs)) = Inr (digits_value (concat (map str_u8 bs)))"
  unfolding py_int_def using concat_str_u8_digits [of bs] concat_str_u8_nonempty [of bs]
  by (simp only: simp_thms if_True)

text \<open>A non-empty slice inside the RAM never makes \<open>_read_mem_range\<close> raise.\<close>

lemma read_mem_range_Inr:
  assumes "0 < len" and "address < ram_size"
  shows "read_mem_range e address len =
           Inr (digits_value (concat (map str_u8 (ram_slice (ram e) address len))))"
proof -
  from assms have "ram_slice (ram e) address len \<noteq> []"
    by (simp add: ram_slice_def)
  then show ?thesis
    unfolding read_mem_range_def by (rule py_int_concat_str_u8)
qed

lemma time_Inr: "time e = Inr (digits_value (concat (map str_u8 (ram_slice (ram e) 0x07F8 3))))"
  unfolding time_def by (rule read_mem_range_Inr) (simp_all add: ram_size_def)

lemma time_total: "\<exists>t. time e = Inr t"
  using time_Inr by blast

lemma score_bytes:
  "score e = py_int (concat (map str_u8
     [ram e 0x07DE, ram e 0x07DF, ram e 0x07E0, ram e 0x07E1, ram e 0x07E2, ram e 0x07E3]))"
  by (simp add: score_def read_mem_range_def ram_slice_def ram_size_def upt_rec [of "numeral _"])

lemma time_bytes:
  "time e = py_int (concat (map str_u8 [ram e 0x07F8, ram e 0x07F9, ram e 0x07FA]))"
  by (simp add: time_def read_mem_range_def ram_slice_def ram_size_def upt_rec [of "numeral _"])

lemma coins_bytes:
  "coins e = py_int (concat (map str_u8 [ram e 0x07ED, ram e 0x07EE]))"
  by (simp add: coins_def read_mem_range_def ram_slice_def ram_size_def upt_rec [of "numeral _"])

text \<open>Positional value of a list of digit bytes, most significant first.\<close>

lemma digits_value_snoc:
  "digits_value (s @ [c]) = 10 * digits_value s + digit_val c"
  by (simp add: digits_value_def)

lemma digits_value_concat_snoc:
  assumes "unat b \<le> 9"
  shows "digits_value (concat (map str_u8 (bs @ [b]))) =
         10 * digits_value (concat (map str_u8 bs)) + uint b"
proof -
  have "digit_val (digit_char (unat b)) = int (unat b)"
    using assms by (intro digit_val_digit_char) simp
  then show ?thesis
    using assms by (simp add: str_u8_single digits_value_snoc)
qed

lemma digits_value_sum:
  "\<forall>b\<in>set bs. unat b \<le> 9 \<Longrightarrow>
   digits_value (concat (map str_u8 bs)) =
     (\<Sum>i<length bs. uint (bs ! i) * 10 ^ (length bs - 1 - i))"
proof (induction bs rule: rev_induct)
  case Nil
  show ?case by (simp add: digits_value_def)
next
  case (snoc b bs)
  then have b: "unat b \<le> 9" and bs: "\<forall>x\<in>set bs. unat x \<le> 9" by simp_all
  have "(\<Sum>i<length bs. uint ((bs @ [b]) ! i) * 10 ^ (length (bs @ [b]) - 1 - i))
        = (\<Sum>i<length bs. 10 * (uint (bs ! i) * 10 ^ (length bs - 1 - i)))"
  proof (rule sum.cong)
    fix i assume "i \<in> {..<length bs}"
    then have i: "i < length bs" by simp
    then have "length (bs @ [b]) - 1 - i = Suc (length bs - 1 - i)" by simp
    with i show "uint ((bs @ [b]) ! i) * 10 ^ (length (bs @ [b]) - 1 - i)
        = 10 * (uint (bs ! i) * 10 ^ (length bs - 1 - i))"
      by (simp add: nth_append)
  qed simp
  then have "(\<Sum>i<length (bs @ [b]). uint ((bs @ [b]) ! i) * 10 ^ (length (bs @ [b]) - 1 - i))
        = 10 * (\<Sum>i<length bs. uint (bs ! i) * 10 ^ (length bs - 1 - i)) + uint b"
    by (simp add: sum_distrib_left)
  with snoc.IH [OF bs] digits_value_concat_snoc [OF b, of bs] show ?case by simp
qed

lemma digits_value_bounds:
  "\<forall>b\<in>set bs. unat b \<le> 9 \<Longrightarrow>
   0 \<le> digits_value (concat (map str_u8 bs)) \<and> digits_value (concat (map str_u8 bs)) < 10 ^ length bs"
proof (induction bs rule: rev_induct)
  case Nil
  show ?case by (simp add: digits_value_def)
next
  case (snoc b bs)
  then have b: "unat b \<le> 9" and bs: "\<forall>x\<in>set bs. unat x \<le> 9" by simp_all
  have "int (unat b) \<le> 9" using b by linarith
  then have ub: "uint b \<le> 9" by simp
  have lb: "0 \<le> uint b" by simp
  define v where "v = digits_value (concat (map str_u8 bs))"
  have v: "0 \<le> v" "v < 10 ^ length bs" using snoc.IH [OF bs] by (simp_all add: v_def)
  then have "v + 1 \<le> 10 ^ length bs" by simp
  then have "10 * (v + 1) \<le> 10 * 10 ^ length bs" by simp
  then have "10 * v + uint b < 10 ^ length (bs @ [b])" using ub by simp
  moreover have "0 \<le> 10 * v + uint b" using v(1) lb by simp
  ultimately show ?case
    unfolding digits_value_concat_snoc [OF b, of bs] v_def by simp
qed

lemma ram_slice_in_range:
  "address + len \<le> ram_size \<Longrightarrow> ram_slice m address len = map (\<lambda>i. m (address + i)) [0..<len]"
proof -
  assume "address + len \<le> ram_size"
  then have "ram_slice m address len = map m [address..<address + len]"
    by (simp add: ram_slice_def min_def)
  also have "[address..<address + len] = map (\<lambda>i. address + i) [0..<len]"
    by (induction len) simp_all
  finally show ?thesis by (simp add: comp_def)
qed

lemma read_mem_range_digits:
  assumes "0 < len" and "address + len \<le> ram_size"
    and "\<forall>i<len. unat (ram e (address + i)) \<le> 9"
  shows "read_mem_range e address len = Inr (\<Sum>i<len. uint (ram e (address + i)) * 10 ^ (len - 1 - i))"
    and "\<exists>v. read_mem_range e address len = Inr v \<and> 0 \<le> v \<and> v < 10 ^ len"
proof -
  define bs where "bs = ram_slice (ram e) address len"
  have sl: "bs = map (\<lambda>i. ram e (address + i)) [0..<len]"
    unfolding bs_def using assms(2) by (rule ram_slice_in_range)
  have len: "length bs = len" by (simp add: sl)
  have nth: "bs ! i = ram e (address + i)" if "i < len" for i
    using that by (simp add: sl)
  have dig: "\<forall>b\<in>set bs. unat b \<le> 9" using assms(3) by (auto simp: sl)
  have "address < ram_size" using assms(1,2) by simp
  then have r: "read_mem_range e address len = Inr (digits_value (concat (map str_u8 bs)))"
    unfolding bs_def using assms(1) by (intro read_mem_range_Inr)
  have "(\<Sum>i<len. uint (bs ! i) * 10 ^ (len - 1 - i))
      = (\<Sum>i<len. uint (ram e (address + i)) * 10 ^ (len - 1 - i))"
    by (rule sum.cong [OF refl]) (simp add: nth)
  then have "digits_value (concat (map str_u8 bs)) =
      (\<Sum>i<len. uint (ram e (address + i)) * 10 ^ (len - 1 - i))"
    using digits_value_sum [OF dig] by (simp only: len)
  then show "read_mem_range e address len = Inr (\<Sum>i<len. uint (ram e (address + i)) * 10 ^ (len - 1 - i))"
    by (simp only: r)
  have "0 \<le> digits_value (concat (map str_u8 bs)) \<and> digits_value (concat (map str_u8 bs)) < 10 ^ len"
    using digits_value_bounds [OF dig] by (simp only: len)
  then show "\<exists>v. read_mem_range e address len = Inr v \<and> 0 \<le> v \<and> v < 10 ^ len"
    unfolding r by blast
qed

lemma time_penalty_eq:
  "time e = Inr t \<Longrightarrow>
   time_penalty e = Inr (if t - time_last e > 0 then 0 else t - time_last e, e\<lparr>time_last := t\<rparr>)"
  by (simp add: time_penalty_def Let_def)

lemma stage_over_scan_iff:
  "stage_over_scan m xs \<longleftrightarrow> (\<exists>a\<in>set xs. m a = 0x2D \<or> m a = 0x31) \<and> m 0x001D = 3"
  by (induction xs) (auto simp: STAGE_OVER_ENEMIES_def)

section \<open>Episode controller: termination\<close>

text \<open>
  Claim C1. The terminated flag computed for a step is \<open>is_dying \<or> is_dead \<or> flag_get\<close> when the
  environment is a single-stage environment (a target is configured, i.e. the target world and
  area are set), and is \<open>is_game_over\<close>, the lives byte at 0x075A being 0xFF, when it is the
  full game (no target).
\<close>

theorem get_terminated_modes:
  "(is_single_stage_env e \<longrightarrow> get_terminated e = (is_dying e \<or> is_dead e \<or> flag_get e))
 \<and> (\<not> is_single_stage_env e \<longrightarrow> get_terminated e = is_game_over e)
 \<and> is_game_over e = (ram e 0x075A = 0xFF)
 \<and> is_single_stage_env e = (target_world e \<noteq> None \<and> target_area e \<noteq> None)"
  by (simp add: get_terminated_def is_game_over_def life_def is_single_stage_env_def
      word_uint_eq_iff)

theorem get_terminated_modes_witness:
  "is_single_stage_env (with_ram [(0x000E, 0x0B)]\<lparr>target_world := Some 1, target_stage := Some 1, target_area := Some 1\<rparr>)
 \<and> get_terminated (with_ram [(0x000E, 0x0B)]\<lparr>target_world := Some 1, target_stage := Some 1, target_area := Some 1\<rparr>)
 \<and> \<not> is_single_stage_env (with_ram [(0x000E, 0x0B)])
 \<and> \<not> get_terminated (with_ram [(0x000E, 0x0B)])
 \<and> get_terminated (with_ram [(0x075A, 0xFF)])"
  using get_terminated_modes [of "with_ram [(0x000E, 0x0B)]\<lparr>target_world := Some 1, target_stage := Some 1, target_area := Some 1\<rparr>"]
    get_terminated_modes [of "with_ram [(0x000E, 0x0B)]"]
    get_terminated_modes [of "with_ram [(0x075A, 0xFF)]"]
  by (simp add: with_ram_def blank_env_def is_dying_def player_state_def is_single_stage_env_def)

section \<open>Reward engine\<close>

text \<open>
  Claim C2. For every current time and previous time, the time penalty is never positive: it is
  the current time minus the previous time when that difference is at most 0, and 0 when the
  difference is positive; and the stored previous time is set to the current time by every
  evaluation, also when the penalty is suppressed to 0.
\<close>

theorem time_penalty_value:
  "\<exists>t r. time e = Inr t
       \<and> time_penalty e = Inr (r, e\<lparr>time_last := t\<rparr>)
       \<and> r \<le> 0
       \<and> (t - time_last e \<le> 0 \<longrightarrow> r = t - time_last e)
       \<and> (t - time_last e > 0 \<longrightarrow> r = 0)"
proof -
  obtain t where t: "time e = Inr t" using time_total by blast
  show ?thesis
    using t time_penalty_eq [OF t] by auto
qed

theorem time_penalty_value_witness:
  "time_penalty (with_ram [(0x07F8, 3), (0x07F9, 9), (0x07FA, 9)]\<lparr>time_last := 400\<rparr>)
     = Inr (- 1, with_ram [(0x07F8, 3), (0x07F9, 9), (0x07FA, 9)]\<lparr>time_last := 399\<rparr>)
 \<and> time_penalty (with_ram [(0x07F8, 4), (0x07F9, 0), (0x07FA, 0)])
     = Inr (0, with_ram [(0x07F8, 4), (0x07F9, 0), (0x07FA, 0)]\<lparr>time_last := 400\<rparr>)"
proof -
  let ?a = "with_ram [(0x07F8, 3), (0x07F9, 9), (0x07FA, 9)]\<lparr>time_last := 400\<rparr>"
  let ?b = "with_ram [(0x07F8, 4), (0x07F9, 0), (0x07FA, 0)]"
  have ta: "time ?a = Inr 399" by code_simp
  have tb: "time ?b = Inr 400" by code_simp
  have la: "time_last ?a = 400" by simp
  have lb: "time_last ?b = 0" by (simp add: with_ram_def blank_env_def)
  have "time_penalty ?a = Inr (- 1, ?a\<lparr>time_last := 399\<rparr>)"
    using time_penalty_value [of ?a] unfolding ta la by auto
  moreover have "time_penalty ?b = Inr (0, ?b\<lparr>time_last := 400\<rparr>)"
    using time_penalty_value [of ?b] unfolding tb lb by auto
  ultimately show ?thesis by simp
qed

text \<open>
  Claim C3. For every current and previous x position, the x-delta reward is the raw difference
  \<open>x_position - previous x position\<close> when its absolute value is at most 5, and 0 when the
  absolute value is above 5.
\<close>

theorem x_reward_value:
  fixes e :: "'h env"
  defines "d \<equiv> x_position e - last_frame_x_position e"
  shows "(\<bar>d\<bar> \<le> 5 \<longrightarrow> fst (x_reward e) = d) \<and> (\<bar>d\<bar> > 5 \<longrightarrow> fst (x_reward e) = 0)"
  by (auto simp: x_reward_def Let_def d_def)

theorem x_reward_value_witness:
  "fst (x_reward (with_ram [(0x6D, 1), (0x86, 2)]\<lparr>last_frame_x_position := 255\<rparr>)) = 3
 \<and> fst (x_reward (with_ram [(0x6D, 0), (0x86, 40)]\<lparr>last_frame_x_position := 3000\<rparr>)) = 0"
  using x_reward_value [of "with_ram [(0x6D, 1), (0x86, 2)]\<lparr>last_frame_x_position := 255\<rparr>"]
        x_reward_value [of "with_ram [(0x6D, 0), (0x86, 40)]\<lparr>last_frame_x_position := 3000\<rparr>"]
  by (simp add: x_position_def with_ram_ram)

text \<open>
  Claim C10. Evaluating the x-delta reward changes nothing in the environment, in particular not
  the previous-x-position and previous-time trackers, so evaluating it twice in a row gives the
  same value; the time penalty, in contrast, stores the current time in the previous-time
  tracker, and there is a state in which two evaluations in a row give different values.
\<close>

theorem x_reward_frame:
  "snd (x_reward e) = e
 \<and> last_frame_x_position (snd (x_reward e)) = last_frame_x_position e
 \<and> time_last (snd (x_reward e)) = time_last e
 \<and> fst (x_reward (snd (x_reward e))) = fst (x_reward e)
 \<and> (\<exists>t r. time e = Inr t \<and> time_penalty e = Inr (r, e\<lparr>time_last := t\<rparr>))
 \<and> (\<exists>r1 r2 e1 e2. time_penalty (with_ram [(0x07F8, 3), (0x07F9, 9), (0x07FA, 9)]\<lparr>time_last := 400\<rparr>) = Inr (r1, e1)
        \<and> time_penalty e1 = Inr (r2, e2) \<and> r1 \<noteq> r2)"
proof -
  have a: "snd (x_reward e) = e" by (simp add: x_reward_def Let_def)
  obtain t where t: "time e = Inr t" using time_total by blast
  let ?d = "with_ram [(0x07F8, 3), (0x07F9, 9), (0x07FA, 9)]\<lparr>time_last := 400\<rparr>"
  have d: "time ?d = Inr 399" by code_simp
  then have d': "time (?d\<lparr>time_last := 399\<rparr>) = Inr 399" by (simp add: time_def read_mem_range_def)
  have "time_penalty ?d = Inr (- 1, ?d\<lparr>time_last := 399\<rparr>)"
    using time_penalty_eq [OF d] by simp
  moreover have "time_penalty (?d\<lparr>time_last := 399\<rparr>) = Inr (0, ?d\<lparr>time_last := 399\<rparr>)"
    using time_penalty_eq [OF d'] by simp
  ultimately have "\<exists>r1 r2 e1 e2. time_penalty ?d = Inr (r1, e1) \<and> time_penalty e1 = Inr (r2, e2) \<and> r1 \<noteq> r2"
    by (metis Pair_inject  zero_neq_neg_one)
  then show ?thesis using a t time_penalty_eq [OF t] by simp
qed

theorem x_reward_frame_witness:
  "snd (x_reward (with_ram [(0x6D, 1), (0x86, 2)]\<lparr>last_frame_x_position := 255\<rparr>))
     = with_ram [(0x6D, 1), (0x86, 2)]\<lparr>last_frame_x_position := 255\<rparr>
 \<and> fst (x_reward (snd (x_reward (with_ram [(0x6D, 1), (0x86, 2)]\<lparr>last_frame_x_position := 255\<rparr>))))
     = fst (x_reward (with_ram [(0x6D, 1), (0x86, 2)]\<lparr>last_frame_x_position := 255\<rparr>))"
  using x_reward_frame [of "with_ram [(0x6D, 1), (0x86, 2)]\<lparr>last_frame_x_position := 255\<rparr>"]
  by blast

section \<open>Memory decoder: vertical position\<close>

text \<open>
  Claim C4. For every memory snapshot, with \<open>v\<close> the viewport indicator byte (address 0x00B5) and
  \<open>p\<close> the pixel byte (address 0x03B8), the decoded vertical position is \<open>255 + (255 - p)\<close> when
  \<open>v < 1\<close>, \<open>- p - 1\<close> when \<open>v > 1\<close> and \<open>255 - p\<close> when \<open>v = 1\<close>; indicator 0 with pixel 10 gives
  500, indicator 2 with pixel 10 gives -11, indicator 1 with pixel 10 gives 245.
\<close>

theorem y_position_decode:
  fixes e :: "'h env"
  defines "v \<equiv> ram e 0x00B5" and "p \<equiv> uint (ram e 0x03B8)"
  shows "(v < 1 \<longrightarrow> y_position e = 255 + (255 - p))
       \<and> (v > 1 \<longrightarrow> y_position e = - p - 1)
       \<and> (v = 1 \<longrightarrow> y_position e = 255 - p)
       \<and> (v = 0 \<and> p = 10 \<longrightarrow> y_position e = 500)
       \<and> (v = 2 \<and> p = 10 \<longrightarrow> y_position e = - 11)
       \<and> (v = 1 \<and> p = 10 \<longrightarrow> y_position e = 245)"
  by (auto simp: y_position_def y_viewport_def y_pixel_def v_def p_def)

theorem y_position_decode_witness:
  "y_position (with_ram [(0x00B5, 0), (0x03B8, 10)]) = 500
 \<and> y_position (with_ram [(0x00B5, 2), (0x03B8, 10)]) = - 11
 \<and> y_position (with_ram [(0x00B5, 1), (0x03B8, 10)]) = 245"
  using y_position_decode [of "with_ram [(0x00B5, 0), (0x03B8, 10)]"]
        y_position_decode [of "with_ram [(0x00B5, 2), (0x03B8, 10)]"]
        y_position_decode [of "with_ram [(0x00B5, 1), (0x03B8, 10)]"]
  by (simp add: with_ram_def blank_env_def)

section \<open>Memory decoder: stage over\<close>

text \<open>
  Claim C5. For every memory snapshot, \<open>is_stage_over\<close> holds exactly when one of the five enemy
  slots 0x0016 to 0x001A holds the Boss identifier 0x2D or the Flag identifier 0x31 and the
  float-state byte at 0x001D is 3. In particular a slot with the Flag identifier together with
  float state 3 gives true, and float state 3 with no Boss or Flag identifier in any slot (vine
  climbing) gives false.
\<close>

theorem is_stage_over_iff:
  "(is_stage_over e \<longleftrightarrow>
      (\<exists>a\<in>{0x0016, 0x0017, 0x0018, 0x0019, 0x001A}. ram e a = 0x2D \<or> ram e a = 0x31)
      \<and> ram e 0x001D = 3)
 \<and> ((\<exists>a\<in>{0x0016, 0x0017, 0x0018, 0x0019, 0x001A}. ram e a = 0x31) \<and> ram e 0x001D = 3
      \<longrightarrow> is_stage_over e)
 \<and> ((\<forall>a\<in>{0x0016, 0x0017, 0x0018, 0x0019, 0x001A}. ram e a \<noteq> 0x2D \<and> ram e a \<noteq> 0x31)
      \<and> ram e 0x001D = 3 \<longrightarrow> \<not> is_stage_over e)"
  unfolding is_stage_over_def stage_over_scan_iff ENEMY_TYPE_ADDRESSES_def by auto

theorem is_stage_over_iff_witness:
  "is_stage_over (with_ram [(0x0018, 0x31), (0x001D, 3)])
 \<and> \<not> is_stage_over (with_ram [(0x0018, 0x2F), (0x001D, 3)])"
  using is_stage_over_iff [of "with_ram [(0x0018, 0x31), (0x001D, 3)]"]
        is_stage_over_iff [of "with_ram [(0x0018, 0x2F), (0x001D, 3)]"]
  by (simp add: with_ram_ram)

section \<open>Memory decoder: the digit counters\<close>

text \<open>
  Claim C6. For every memory snapshot, each counter (score, 6 bytes from 0x07DE; time, 3 bytes
  from 0x07F8; coins, 2 bytes from 0x07ED) is decoded by reading its consecutive bytes,
  concatenating their decimal strings and parsing the result as an integer; when every byte is
  one decimal digit the result is the sum of \<open>digit i * 10 ^ (N - 1 - i)\<close>.
\<close>

theorem counters_decode:
  "score e = py_int (concat (map str_u8
     [ram e 0x07DE, ram e 0x07DF, ram e 0x07E0, ram e 0x07E1, ram e 0x07E2, ram e 0x07E3]))
 \<and> time e = py_int (concat (map str_u8 [ram e 0x07F8, ram e 0x07F9, ram e 0x07FA]))
 \<and> coins e = py_int (concat (map str_u8 [ram e 0x07ED, ram e 0x07EE]))
 \<and> ((\<forall>i<6. unat (ram e (0x07DE + i)) \<le> 9) \<longrightarrow>
       score e = Inr (\<Sum>i<6. uint (ram e (0x07DE + i)) * 10 ^ (6 - 1 - i)))
 \<and> ((\<forall>i<3. unat (ram e (0x07F8 + i)) \<le> 9) \<longrightarrow>
       time e = Inr (\<Sum>i<3. uint (ram e (0x07F8 + i)) * 10 ^ (3 - 1 - i)))
 \<and> ((\<forall>i<2. unat (ram e (0x07ED + i)) \<le> 9) \<longrightarrow>
       coins e = Inr (\<Sum>i<2. uint (ram e (0x07ED + i)) * 10 ^ (2 - 1 - i)))"
proof -
  have s: "score e = Inr (\<Sum>i<6. uint (ram e (0x07DE + i)) * 10 ^ (6 - 1 - i))"
    if "\<forall>i<6. unat (ram e (0x07DE + i)) \<le> 9"
    unfolding score_def using that by (intro read_mem_range_digits(1)) (simp_all add: ram_size_def)
  have t: "time e = Inr (\<Sum>i<3. uint (ram e (0x07F8 + i)) * 10 ^ (3 - 1 - i))"
    if "\<forall>i<3. unat (ram e (0x07F8 + i)) \<le> 9"
    unfolding time_def using that by (intro read_mem_range_digits(1)) (simp_all add: ram_size_def)
  have c: "coins e = Inr (\<Sum>i<2. uint (ram e (0x07ED + i)) * 10 ^ (2 - 1 - i))"
    if "\<forall>i<2. unat (ram e (0x07ED + i)) \<le> 9"
    unfolding coins_def using that by (intro read_mem_range_digits(1)) (simp_all add: ram_size_def)
  show ?thesis
    using s t c score_bytes [of e] time_bytes [of e] coins_bytes [of e] by blast
qed

theorem counters_decode_witness:
  "unat (ram (with_ram [(0x07F8, 4), (0x07F9, 0), (0x07FA, 0)]) 0x07F8) \<le> 9
 \<and> unat (ram (with_ram [(0x07F8, 4), (0x07F9, 0), (0x07FA, 0)]) 0x07F9) \<le> 9
 \<and> unat (ram (with_ram [(0x07F8, 4), (0x07F9, 0), (0x07FA, 0)]) 0x07FA) \<le> 9
 \<and> time (with_ram [(0x07F8, 4), (0x07F9, 0), (0x07FA, 0)]) = Inr 400"
proof -
  let ?e = "with_ram [(0x07F8, 4), (0x07F9, 0), (0x07FA, 0)]"
  have h: "\<forall>i<3. unat (ram ?e (0x07F8 + i)) \<le> 9"
    by (simp add: with_ram_ram)
  have v: "(\<Sum>i<3. uint (ram ?e (0x07F8 + i)) * 10 ^ (3 - 1 - i)) = 400"
    by (simp add: with_ram_ram lessThan_nat_numeral lessThan_Suc)
  have "time ?e = Inr (\<Sum>i<3. uint (ram ?e (0x07F8 + i)) * 10 ^ (3 - 1 - i))"
    using h counters_decode [of ?e] by blast
  with v show ?thesis by (simp add: with_ram_ram)
qed

text \<open>
  Claim C9, as amended. For every memory snapshot in which each of the \<open>N\<close> bytes a counter
  decoder reads is at most 9, the decoded value is non-negative and strictly below \<open>10 ^ N\<close>:
  time is at most 999, coins at most 99 and score at most 999999. If a byte exceeds 9 the
  decoded value can exceed the documented maxima: bytes 10, 0, 0 decode to time 1000, bytes
  10, 0 to 100 coins, and a leading score byte 10 to score 1000000.

  As stated, with score at most 999990, the claim fails: six score bytes 9 are all at most 9
  and decode to 999999.
\<close>

theorem counters_bounded:
  "(0 < len \<and> address + len \<le> ram_size \<and> (\<forall>i<len. unat (ram e (address + i)) \<le> 9) \<longrightarrow>
      (\<exists>v. read_mem_range e address len = Inr v \<and> 0 \<le> v \<and> v < 10 ^ len))
 \<and> ((\<forall>i<3. unat (ram e (0x07F8 + i)) \<le> 9) \<longrightarrow> (\<exists>v. time e = Inr v \<and> 0 \<le> v \<and> v \<le> 999))
 \<and> ((\<forall>i<2. unat (ram e (0x07ED + i)) \<le> 9) \<longrightarrow> (\<exists>v. coins e = Inr v \<and> 0 \<le> v \<and> v \<le> 99))
 \<and> ((\<forall>i<6. unat (ram e (0x07DE + i)) \<le> 9) \<longrightarrow> (\<exists>v. score e = Inr v \<and> 0 \<le> v \<and> v \<le> 999999))
 \<and> time (with_ram [(0x07F8, 10), (0x07F9, 0), (0x07FA, 0)]) = Inr 1000
 \<and> coins (with_ram [(0x07ED, 10), (0x07EE, 0)]) = Inr 100
 \<and> score (with_ram [(0x07DE, 10)]) = Inr 1000000"
proof -
  have g: "\<exists>v. read_mem_range e address len = Inr v \<and> 0 \<le> v \<and> v < 10 ^ len"
    if "0 < len" "address + len \<le> ram_size" "\<forall>i<len. unat (ram e (address + i)) \<le> 9"
    using that by (rule read_mem_range_digits(2))
  have t: "\<exists>v. time e = Inr v \<and> 0 \<le> v \<and> v \<le> 999"
    if "\<forall>i<3. unat (ram e (0x07F8 + i)) \<le> 9"
  proof -
    have "\<exists>v. read_mem_range e 0x07F8 3 = Inr v \<and> 0 \<le> v \<and> v < 10 ^ 3"
      using that by (intro read_mem_range_digits(2)) (simp_all add: ram_size_def)
    then show ?thesis unfolding time_def by auto
  qed
  have c: "\<exists>v. coins e = Inr v \<and> 0 \<le> v \<and> v \<le> 99"
    if "\<forall>i<2. unat (ram e (0x07ED + i)) \<le> 9"
  proof -
    have "\<exists>v. read_mem_range e 0x07ED 2 = Inr v \<and> 0 \<le> v \<and> v < 10 ^ 2"
      using that by (intro read_mem_range_digits(2)) (simp_all add: ram_size_def)
    then show ?thesis unfolding coins_def by auto
  qed
  have s: "\<exists>v. score e = Inr v \<and> 0 \<le> v \<and> v \<le> 999999"
    if "\<forall>i<6. unat (ram e (0x07DE + i)) \<le> 9"
  proof -
    have "\<exists>v. read_mem_range e 0x07DE 6 = Inr v \<and> 0 \<le> v \<and> v < 10 ^ 6"
      using that by (intro read_mem_range_digits(2)) (simp_all add: ram_size_def)
    then show ?thesis unfolding score_def by auto
  qed
  have x1: "time (with_ram [(0x07F8, 10), (0x07F9, 0), (0x07FA, 0)]) = Inr 1000" by code_simp
  have x2: "coins (with_ram [(0x07ED, 10), (0x07EE, 0)]) = Inr 100" by code_simp
  have x3: "score (with_ram [(0x07DE, 10)]) = Inr 1000000" by code_simp
  show ?thesis using g t c s x1 x2 x3 by blast
qed

theorem counters_bounded_witness:
  "unat (ram (with_ram [(0x07F8, 9), (0x07F9, 9), (0x07FA, 9)]) 0x07F8) \<le> 9
 \<and> unat (ram (with_ram [(0x07F8, 9), (0x07F9, 9), (0x07FA, 9)]) 0x07F9) \<le> 9
 \<and> unat (ram (with_ram [(0x07F8, 9), (0x07F9, 9), (0x07FA, 9)]) 0x07FA) \<le> 9
 \<and> (\<exists>v. time (with_ram [(0x07F8, 9), (0x07F9, 9), (0x07FA, 9)]) = Inr v \<and> 0 \<le> v \<and> v \<le> 999)"
proof -
  let ?e = "with_ram [(0x07F8, 9), (0x07F9, 9), (0x07FA, 9)]"
  have h: "\<forall>i<3. unat (ram ?e (0x07F8 + i)) \<le> 9"
    by (simp add: with_ram_ram)
  then have "\<exists>v. time ?e = Inr v \<and> 0 \<le> v \<and> v \<le> 999"
    using counters_bounded [of 3 "0x07F8" ?e] by blast
  then show ?thesis by (simp add: with_ram_ram)
qed

theorem score_bound_counterexample:
  "unat (ram (with_ram [(0x07DE, 9), (0x07DF, 9), (0x07E0, 9), (0x07E1, 9), (0x07E2, 9), (0x07E3, 9)]) 0x07DE) \<le> 9
 \<and> unat (ram (with_ram [(0x07DE, 9), (0x07DF, 9), (0x07E0, 9), (0x07E1, 9), (0x07E2, 9), (0x07E3, 9)]) 0x07DF) \<le> 9
 \<and> unat (ram (with_ram [(0x07DE, 9), (0x07DF, 9), (0x07E0, 9), (0x07E1, 9), (0x07E2, 9), (0x07E3, 9)]) 0x07E0) \<le> 9
 \<and> unat (ram (with_ram [(0x07DE, 9), (0x07DF, 9), (0x07E0, 9), (0x07E1, 9), (0x07E2, 9), (0x07E3, 9)]) 0x07E1) \<le> 9
 \<and> unat (ram (with_ram [(0x07DE, 9), (0x07DF, 9), (0x07E0, 9), (0x07E1, 9), (0x07E2, 9), (0x07E3, 9)]) 0x07E2) \<le> 9
 \<and> unat (ram (with_ram [(0x07DE, 9), (0x07DF, 9), (0x07E0, 9), (0x07E1, 9), (0x07E2, 9), (0x07E3, 9)]) 0x07E3) \<le> 9
 \<and> score (with_ram [(0x07DE, 9), (0x07DF, 9), (0x07E0, 9), (0x07E1, 9), (0x07E2, 9), (0x07E3, 9)]) = Inr 999999
 \<and> \<not> (999999 :: int) \<le> 999990"
proof -
  have "score (with_ram [(0x07DE, 9), (0x07DF, 9), (0x07E0, 9), (0x07E1, 9), (0x07E2, 9), (0x07E3, 9)]) = Inr 999999"
    by code_simp
  then show ?thesis by (simp add: with_ram_ram)
qed

section \<open>Skip controller: the start sequence\<close>

text \<open>What a frame advance and the timer hack leave alone.\<close>

lemma time_time_last_update [simp]: "time (e\<lparr>time_last := x\<rparr>) = time e"
  by (simp add: time_def read_mem_range_def)

lemma frame_advance_inputs [simp]: "inputs (frame_advance fa a e) = inputs e @ [a]"
  by (simp add: frame_advance_def split: prod.split)

lemma frame_advance_time_last [simp]: "time_last (frame_advance fa a e) = time_last e"
  by (simp add: frame_advance_def split: prod.split)

lemma frame_advance_single_stage [simp]:
  "is_single_stage_env (frame_advance fa a e) = is_single_stage_env e"
  by (simp add: frame_advance_def is_single_stage_env_def split: prod.split)

lemma single_stage_time_last_update [simp]:
  "is_single_stage_env (e\<lparr>time_last := x\<rparr>) = is_single_stage_env e"
  by (simp add: is_single_stage_env_def)

lemma runout_prelevel_timer_fields [simp]:
  "inputs (runout_prelevel_timer e) = inputs e"
  "hidden (runout_prelevel_timer e) = hidden e"
  "time_last (runout_prelevel_timer e) = time_last e"
  "is_single_stage_env (runout_prelevel_timer e) = is_single_stage_env e"
  by (simp_all add: runout_prelevel_timer_def is_single_stage_env_def)

lemma runout_prelevel_timer_time [simp]: "time (runout_prelevel_timer e) = time e"
  by (simp add: time_bytes runout_prelevel_timer_def)

text \<open>The iterations of the idle loop.\<close>

lemma idle_iteration_eq:
  "time e = Inr t \<Longrightarrow>
   idle_iteration fa e = frame_advance fa 0 (frame_advance fa 8 (e\<lparr>time_last := t\<rparr>))"
  by (simp add: idle_iteration_def)

lemma idle_iteration_inputs: "inputs (idle_iteration fa e) = inputs e @ [8, 0]"
proof -
  obtain t where "time e = Inr t" using time_total by blast
  then show ?thesis by (simp add: idle_iteration_eq)
qed

lemma idle_iteration_time_last: "time e = Inr t \<Longrightarrow> time_last (idle_iteration fa e) = t"
  by (simp add: idle_iteration_eq)

lemma idle_iterations_inputs:
  "inputs ((idle_iteration fa ^^ k) e) = inputs e @ concat (replicate k [8, 0])"
proof (induction k)
  case 0
  show ?case by simp
next
  case (Suc k)
  have "concat (replicate (Suc k) [8, 0 :: byte]) = concat (replicate k [8, 0]) @ [8, 0]"
    by (induction k) simp_all
  with Suc show ?case by (simp add: idle_iteration_inputs)
qed

lemma press_start_loop_nonzero:
  "press_start_loop fa n e = Some (Inr e1) \<Longrightarrow> \<exists>t. time e1 = Inr t \<and> t \<noteq> 0"
proof (induction n arbitrary: e)
  case 0
  then show ?case by (auto split: sum.splits if_splits)
next
  case (Suc n)
  obtain t where t: "time e = Inr t" using time_total by blast
  show ?case
  proof (cases "t = 0")
    case True
    with Suc.prems t show ?thesis
      by (auto simp: Let_def dest: Suc.IH)
  next
    case False
    with Suc.prems t show ?thesis by auto
  qed
qed

lemma idle_loop_iterations:
  "idle_loop fa n e0 = Some (Inr e') \<Longrightarrow>
   \<exists>k\<le>n. e' = (idle_iteration fa ^^ k) e0
      \<and> (\<forall>j<k. \<exists>t. time ((idle_iteration fa ^^ j) e0) = Inr t
                    \<and> time_last ((idle_iteration fa ^^ j) e0) \<le> t)
      \<and> (\<exists>t'. time e' = Inr t' \<and> t' < time_last e')"
proof (induction n arbitrary: e0)
  case 0
  then have "e' = e0 \<and> (\<exists>t'. time e' = Inr t' \<and> t' < time_last e')"
    by (auto split: sum.splits if_splits)
  then show ?case by (intro exI [of _ 0]) auto
next
  case (Suc n)
  obtain t where t: "time e0 = Inr t" using time_total by blast
  show ?case
  proof (cases "time_last e0 \<le> t")
    case False
    with Suc.prems t have "e' = e0 \<and> (\<exists>t'. time e' = Inr t' \<and> t' < time_last e')"
      by auto
    then have "e' = (idle_iteration fa ^^ 0) e0
       \<and> (\<forall>j<0. \<exists>t. time ((idle_iteration fa ^^ j) e0) = Inr t
                    \<and> time_last ((idle_iteration fa ^^ j) e0) \<le> t)
       \<and> (\<exists>t'. time e' = Inr t' \<and> t' < time_last e')" by auto
    then show ?thesis by blast
  next
    case True
    with Suc.prems t have "idle_loop fa n (idle_iteration fa e0) = Some (Inr e')"
      by (simp add: idle_iteration_eq)
    from Suc.IH [OF this] obtain k where k: "k \<le> n"
      and e': "e' = (idle_iteration fa ^^ k) (idle_iteration fa e0)"
      and run: "\<forall>j<k. \<exists>t. time ((idle_iteration fa ^^ j) (idle_iteration fa e0)) = Inr t
                    \<and> time_last ((idle_iteration fa ^^ j) (idle_iteration fa e0)) \<le> t"
      and fin: "\<exists>t'. time e' = Inr t' \<and> t' < time_last e'"
      by blast
    have a: "e' = (idle_iteration fa ^^ Suc k) e0"
      using e' by (simp add: funpow_swap1)
    have b: "\<exists>t. time ((idle_iteration fa ^^ j) e0) = Inr t
                \<and> time_last ((idle_iteration fa ^^ j) e0) \<le> t" if "j < Suc k" for j
    proof (cases j)
      case 0
      with t True show ?thesis by simp
    next
      case (Suc i)
      with that have "i < k" by simp
      with run Suc show ?thesis by (simp add: funpow_swap1)
    qed
    from k a b fin show ?thesis
      by (intro exI [of _ "Suc k"]) blast
  qed
qed

text \<open>The scripted emulator: frame counter and clock after one frame, and the two runs.\<close>

lemma clock_emulator_hidden:
  "hidden (frame_advance clock_emulator a e) = Suc (hidden e)"
  by (simp add: frame_advance_def clock_emulator_def split: prod.split)

lemma clock_emulator_time:
  "time (frame_advance clock_emulator a e) =
     Inr (if Suc (hidden e) < 4 then 0 else if Suc (hidden e) < 6 then 400
          else if Suc (hidden e) < 8 then 401 else 399)"
  by (simp add: time_bytes frame_advance_def clock_emulator_def clock_digits_def
      str_u8_def py_int_def is_digit_def digit_char_def digits_value_def digit_val_def
      split: prod.split)

lemma blank_env_fields:
  "hidden blank_env = 0" "inputs blank_env = []" "\<not> is_single_stage_env blank_env"
  by (simp_all add: blank_env_def is_single_stage_env_def)

lemmas clock_run_simps =
  skip_start_screen_def numeral_2_eq_2 Let_def clock_emulator_hidden clock_emulator_time
  blank_env_fields

lemma clock_run:
  "\<exists>e'. skip_start_screen clock_emulator 2 blank_env = Some (Inr e')
      \<and> inputs e' = [8, 0, 8, 0, 8, 0, 8, 0] \<and> time_last e' = 401 \<and> time e' = Inr 399"
  by (simp add: clock_run_simps)

lemma spec_clock_run:
  "\<exists>e'. spec_skip_start_screen clock_emulator 2 blank_env = Some (Inr e')
      \<and> inputs e' = [8, 0, 8, 0, 0, 0] \<and> time_last e' = 401 \<and> time e' = Inr 401"
  by (simp add: spec_skip_start_screen_def clock_run_simps)

text \<open>
  Claim C7, as amended. In the start-of-episode sequence, once the decoded time has become
  nonzero, the skip controller repeats, at least once, the following: store the decoded time in
  the previous-time tracker, then advance two frames, the first with Start pressed (input 8)
  and the second with no button (input 0). It repeats exactly while the decoded time is
  greater than or equal to the stored previous time. When the phase ends the previous-time
  tracker holds the time observed before the last two frames, which is strictly greater than
  the time observed at the end; the time observed at the end becomes the previous-time
  baseline when the reset hook \<open>_did_reset\<close> runs on that state.

  As stated (no-op frames only, run exactly while the time equals its previous value, the
  final time stored as baseline) the claim fails on the scripted emulator: the code sends
  Start in the idle phase, goes on after the clock moved from 400 to 401, and ends with
  previous-time 401 while the clock shows 399; the phase as the specification words it sends
  two no-op frames and stops at 401.
\<close>

theorem skip_start_screen_idle_phase:
  assumes "skip_start_screen fa fuel e = Some (Inr e')"
  shows "\<exists>e1 t1 k.
      press_start_loop fa fuel (frame_advance fa 0 (frame_advance fa 8 e)) = Some (Inr e1)
    \<and> time e1 = Inr t1 \<and> t1 \<noteq> 0
    \<and> 0 < k \<and> k \<le> fuel
    \<and> e' = (idle_iteration fa ^^ k) (e1\<lparr>time_last := t1\<rparr>)
    \<and> inputs e' = inputs e1 @ concat (replicate k [8, 0])
    \<and> (\<forall>j<k. \<exists>t. time ((idle_iteration fa ^^ j) (e1\<lparr>time_last := t1\<rparr>)) = Inr t
                  \<and> time_last ((idle_iteration fa ^^ j) (e1\<lparr>time_last := t1\<rparr>)) \<le> t)
    \<and> time ((idle_iteration fa ^^ (k - 1)) (e1\<lparr>time_last := t1\<rparr>)) = Inr (time_last e')
    \<and> (\<exists>t'. time e' = Inr t' \<and> t' < time_last e')
    \<and> (\<exists>t' e''. time e' = Inr t' \<and> did_reset e' = Inr e'' \<and> time_last e'' = t')"
proof -
  from assms obtain e1 where
    e1: "press_start_loop fa fuel (frame_advance fa 0 (frame_advance fa 8 e)) = Some (Inr e1)"
    by (auto simp: skip_start_screen_def split: option.splits sum.splits)
  from press_start_loop_nonzero [OF e1] obtain t1 where t1: "time e1 = Inr t1" "t1 \<noteq> 0"
    by blast
  define e0 where "e0 = e1\<lparr>time_last := t1\<rparr>"
  have e0: "time e0 = Inr t1" "time_last e0 = t1" "inputs e0 = inputs e1"
    by (simp_all add: e0_def t1)
  from assms e1 t1 have "idle_loop fa fuel e0 = Some (Inr e')"
    by (simp add: skip_start_screen_def e0_def)
  from idle_loop_iterations [OF this] obtain k where k: "k \<le> fuel"
    and e': "e' = (idle_iteration fa ^^ k) e0"
    and run: "\<forall>j<k. \<exists>t. time ((idle_iteration fa ^^ j) e0) = Inr t
                  \<and> time_last ((idle_iteration fa ^^ j) e0) \<le> t"
    and fin: "\<exists>t'. time e' = Inr t' \<and> t' < time_last e'"
    by blast
  have pos: "0 < k"
  proof (rule ccontr)
    assume "\<not> 0 < k"
    then have "e' = e0" using e' by simp
    with fin e0 show False by simp
  qed
  then obtain i where i: "k = Suc i" by (cases k) simp_all
  from run i obtain t where t: "time ((idle_iteration fa ^^ i) e0) = Inr t" by blast
  have "time_last e' = t"
    using e' i idle_iteration_time_last [OF t, of fa] by simp
  with t i have last: "time ((idle_iteration fa ^^ (k - 1)) e0) = Inr (time_last e')" by simp
  have inp: "inputs e' = inputs e1 @ concat (replicate k [8, 0])"
    unfolding e' idle_iterations_inputs e0(3) ..
  from fin obtain t' where t': "time e' = Inr t'" by blast
  then have rst: "\<exists>t' e''. time e' = Inr t' \<and> did_reset e' = Inr e'' \<and> time_last e'' = t'"
    by (simp add: did_reset_def)
  from e1 t1 pos k e' inp run last fin rst show ?thesis
    unfolding e0_def by blast
qed

theorem skip_start_screen_idle_phase_witness:
  "\<exists>e'. skip_start_screen clock_emulator 2 blank_env = Some (Inr e')
      \<and> inputs e' = [8, 0, 8, 0, 8, 0, 8, 0] \<and> time_last e' = 401 \<and> time e' = Inr 399
      \<and> (\<exists>(e1 :: nat env) k. 0 < k \<and> inputs e' = inputs e1 @ concat (replicate k [8, 0]))
      \<and> (\<exists>e''. did_reset e' = Inr e'' \<and> time_last e'' = 399)"
proof -
  from clock_run obtain e' where e': "skip_start_screen clock_emulator 2 blank_env = Some (Inr e')"
    and v: "inputs e' = [8, 0, 8, 0, 8, 0, 8, 0]" "time_last e' = 401" "time e' = Inr 399"
    by blast
  note T = skip_start_screen_idle_phase [OF e']
  have A: "\<exists>(e1 :: nat env) k. 0 < k \<and> inputs e' = inputs e1 @ concat (replicate k [8, 0])"
    using T by (elim exE conjE) (intro exI conjI, assumption+)
  have "\<exists>t' e''. time e' = Inr t' \<and> did_reset e' = Inr e'' \<and> time_last e'' = t'"
    using T by (elim exE conjE) (intro exI conjI, assumption+)
  then obtain t' e'' where r: "time e' = Inr t'" "did_reset e' = Inr e''" "time_last e'' = t'"
    by (elim exE conjE)
  from r(1) v(3) have "t' = 399" by simp
  with r have "did_reset e' = Inr e'' \<and> time_last e'' = 399" by simp
  then have B: "\<exists>e''. did_reset e' = Inr e'' \<and> time_last e'' = 399" ..
  from e' v A B show ?thesis by blast
qed

theorem idle_phase_counterexample:
  "map_option (map_sum id inputs) (skip_start_screen clock_emulator 2 blank_env)
     = Some (Inr [8, 0, 8, 0, 8, 0, 8, 0])
 \<and> map_option (map_sum id time_last) (skip_start_screen clock_emulator 2 blank_env)
     = Some (Inr 401)
 \<and> map_option (map_sum id time) (skip_start_screen clock_emulator 2 blank_env)
     = Some (Inr (Inr 399))
 \<and> map_option (map_sum id inputs) (spec_skip_start_screen clock_emulator 2 blank_env)
     = Some (Inr [8, 0, 8, 0, 0, 0])
 \<and> map_option (map_sum id time_last) (spec_skip_start_screen clock_emulator 2 blank_env)
     = Some (Inr 401)
 \<and> map_option (map_sum id time) (spec_skip_start_screen clock_emulator 2 blank_env)
     = Some (Inr (Inr 401))
 \<and> skip_start_screen clock_emulator 2 blank_env
     \<noteq> spec_skip_start_screen clock_emulator 2 blank_env"
proof -
  from clock_run obtain e1 where e1: "skip_start_screen clock_emulator 2 blank_env = Some (Inr e1)"
    and v1: "inputs e1 = [8, 0, 8, 0, 8, 0, 8, 0]" "time_last e1 = 401" "time e1 = Inr 399"
    by blast
  from spec_clock_run obtain e2 where
    e2: "spec_skip_start_screen clock_emulator 2 blank_env = Some (Inr e2)"
    and v2: "inputs e2 = [8, 0, 8, 0, 0, 0]" "time_last e2 = 401" "time e2 = Inr 401"
    by blast
  have ne: "e1 \<noteq> e2"
  proof
    assume "e1 = e2"
    then have "inputs e1 = inputs e2" by (rule arg_cong)
    then show False by (simp add: v1(1) v2(1))
  qed
  have a: "map_option (map_sum id inputs) (Some (Inr e1 :: error + nat env)) = Some (Inr [8, 0, 8, 0, 8, 0, 8, 0])"
    by (simp add: v1(1))
  have b: "map_option (map_sum id time_last) (Some (Inr e1 :: error + nat env)) = Some (Inr 401)"
    by (simp add: v1(2))
  have c: "map_option (map_sum id time) (Some (Inr e1 :: error + nat env)) = Some (Inr (Inr 399))"
    by (simp add: v1(3))
  have d: "map_option (map_sum id inputs) (Some (Inr e2 :: error + nat env)) = Some (Inr [8, 0, 8, 0, 0, 0])"
    by (simp add: v2(1))
  have f: "map_option (map_sum id time_last) (Some (Inr e2 :: error + nat env)) = Some (Inr 401)"
    by (simp add: v2(2))
  have g: "map_option (map_sum id time) (Some (Inr e2 :: error + nat env)) = Some (Inr (Inr 401))"
    by (simp add: v2(3))
  have h: "Some (Inr e1 :: error + nat env) \<noteq> Some (Inr e2)" using ne by simp
  from a b c d f g h show ?thesis unfolding e1 e2 by (intro conjI)
qed

section \<open>Episode controller: the info record of a step\<close>

text \<open>The previous-frame positions survive everything a step does after recording them.\<close>

lemma frame_advance_last_frame [simp]:
  "last_frame_x_position (frame_advance fa a e) = last_frame_x_position e"
  "last_frame_y_position (frame_advance fa a e) = last_frame_y_position e"
  by (simp_all add: frame_advance_def split: prod.split)

lemma kill_mario_last_frame [simp]:
  "last_frame_x_position (kill_mario fa e) = last_frame_x_position e"
  "last_frame_y_position (kill_mario fa e) = last_frame_y_position e"
  by (simp_all add: kill_mario_def)

lemma skip_change_area_last_frame [simp]:
  "last_frame_x_position (skip_change_area e) = last_frame_x_position e"
  "last_frame_y_position (skip_change_area e) = last_frame_y_position e"
  by (simp_all add: skip_change_area_def Let_def)

lemma runout_prelevel_timer_last_frame [simp]:
  "last_frame_x_position (runout_prelevel_timer e) = last_frame_x_position e"
  "last_frame_y_position (runout_prelevel_timer e) = last_frame_y_position e"
  by (simp_all add: runout_prelevel_timer_def)

lemma skip_occupied_states_last_frame:
  "skip_occupied_states fa n e = Some e' \<Longrightarrow>
   last_frame_x_position e' = last_frame_x_position e
   \<and> last_frame_y_position e' = last_frame_y_position e"
proof (induction n arbitrary: e)
  case 0
  then show ?case by (simp split: if_splits)
next
  case (Suc n)
  show ?case
  proof (cases "is_busy e \<or> is_world_over e")
    case True
    with Suc.prems have
      "skip_occupied_states fa n (frame_advance fa 0 (runout_prelevel_timer e)) = Some e'"
      by simp
    from Suc.IH [OF this] show ?thesis by simp
  next
    case False
    with Suc.prems show ?thesis by simp
  qed
qed

lemma end_of_world_loop_last_frame:
  "end_of_world_loop fa n t0 e = Some (Inr e') \<Longrightarrow>
   last_frame_x_position e' = last_frame_x_position e
   \<and> last_frame_y_position e' = last_frame_y_position e"
proof (induction n arbitrary: e)
  case 0
  then show ?case by (simp split: sum.splits if_splits)
next
  case (Suc n)
  obtain t where t: "time e = Inr t" using time_total by blast
  show ?case
  proof (cases "t = t0")
    case True
    with Suc.prems t have "end_of_world_loop fa n t0 (frame_advance fa 0 e) = Some (Inr e')"
      by simp
    from Suc.IH [OF this] show ?thesis by simp
  next
    case False
    with Suc.prems t show ?thesis by simp
  qed
qed

lemma skip_end_of_world_last_frame:
  "skip_end_of_world fa n e = Some (Inr e') \<Longrightarrow>
   last_frame_x_position e' = last_frame_x_position e
   \<and> last_frame_y_position e' = last_frame_y_position e"
  by (auto simp: skip_end_of_world_def split: if_splits sum.splits
      dest: end_of_world_loop_last_frame)

lemma did_step_last_frame:
  assumes "did_step fa n reset_pending e = Some (Inr e')"
  shows "last_frame_x_position e' = last_frame_x_position e
       \<and> last_frame_y_position e' = last_frame_y_position e"
proof (cases reset_pending)
  case True
  with assms show ?thesis by (simp add: did_step_def)
next
  case False
  with assms show ?thesis
    by (auto simp: did_step_def Let_def split: option.splits sum.splits if_splits
        dest!: skip_end_of_world_last_frame skip_occupied_states_last_frame)
qed

lemma get_reward_frame:
  "get_reward e = Inr (r, e') \<Longrightarrow> \<exists>t. e' = e\<lparr>time_last := t\<rparr>"
  by (auto simp: get_reward_def x_reward_def death_penalty_def time_penalty_def Let_def
      split: sum.splits if_splits prod.splits)

lemma get_info_keys:
  assumes "get_info e = Inr i"
  shows "dom i = {''coins'', ''flag_get'', ''life'', ''score'', ''stage'', ''status'',
                  ''time'', ''world'', ''x_pos'', ''y_pos'', ''x_speed'', ''y_speed''}"
    and "i ''x_pos'' = Some (IInt (x_position e))"
    and "i ''y_pos'' = Some (IInt (y_position e))"
    and "i ''x_speed'' = Some (IInt (x_position e - last_frame_x_position e))"
    and "i ''y_speed'' = Some (IInt (y_position e - last_frame_y_position e))"
proof -
  from assms obtain c sc t where i: "i = map_of
     [(''coins'', IInt c),
      (''flag_get'', IBool (flag_get e)),
      (''life'', IInt (life e)),
      (''score'', IInt sc),
      (''stage'', IInt (stage e)),
      (''status'', IStr (player_status e)),
      (''time'', IInt t),
      (''world'', IInt (world e)),
      (''x_pos'', IInt (x_position e)),
      (''y_pos'', IInt (y_position e)),
      (''x_speed'', IInt (x_position e - last_frame_x_position e)),
      (''y_speed'', IInt (y_position e - last_frame_y_position e))]"
    unfolding get_info_def by (auto split: sum.splits)
  show "dom i = {''coins'', ''flag_get'', ''life'', ''score'', ''stage'', ''status'',
                  ''time'', ''world'', ''x_pos'', ''y_pos'', ''x_speed'', ''y_speed''}"
    unfolding i dom_map_of_conv_image_fst by simp
  show "i ''x_pos'' = Some (IInt (x_position e))"
    unfolding i by simp
  show "i ''y_pos'' = Some (IInt (y_position e))"
    unfolding i by simp
  show "i ''x_speed'' = Some (IInt (x_position e - last_frame_x_position e))"
    unfolding i by simp
  show "i ''y_speed'' = Some (IInt (y_position e - last_frame_y_position e))"
    unfolding i by simp
qed

text \<open>The counters never raise, so neither do the reward and the info record.\<close>

lemma score_Inr: "\<exists>v. score e = Inr v"
  unfolding score_def using read_mem_range_Inr [of 6 "0x07DE" e] by (simp add: ram_size_def)

lemma coins_Inr: "\<exists>v. coins e = Inr v"
  unfolding coins_def using read_mem_range_Inr [of 2 "0x07ED" e] by (simp add: ram_size_def)

lemma get_info_total: "\<exists>i. get_info e = Inr i"
proof -
  obtain c sc t where "coins e = Inr c" "score e = Inr sc" "time e = Inr t"
    using coins_Inr score_Inr time_total by blast
  then show ?thesis by (simp add: get_info_def)
qed

lemma get_reward_total: "\<exists>r t. time e = Inr t \<and> get_reward e = Inr (r, e\<lparr>time_last := t\<rparr>)"
proof -
  obtain t where t: "time e = Inr t" using time_total by blast
  have "snd (x_reward e) = e" by (simp add: x_reward_def Let_def)
  then obtain rx where rx: "x_reward e = (rx, e)" by (cases "x_reward e") simp
  have "snd (death_penalty (e\<lparr>time_last := t\<rparr>)) = e\<lparr>time_last := t\<rparr>"
    by (simp add: death_penalty_def)
  then obtain rd where rd: "death_penalty (e\<lparr>time_last := t\<rparr>) = (rd, e\<lparr>time_last := t\<rparr>)"
    by (cases "death_penalty (e\<lparr>time_last := t\<rparr>)") simp
  show ?thesis
    using t rx rd time_penalty_eq [OF t] by (auto simp: get_reward_def)
qed

text \<open>A step returns whenever the per-step skip sequence finishes.\<close>

lemma step_returns:
  assumes "did_step fa fuel reset_pending
             (frame_advance fa action
               (e\<lparr>last_frame_x_position := x_position e, last_frame_y_position := y_position e\<rparr>))
           = Some (Inr e1)"
  shows "\<exists>res t. time e1 = Inr t
     \<and> step fa fuel reset_pending action e = Some (Inr (res, e1\<lparr>time_last := t\<rparr>))"
proof -
  obtain r t where t: "time e1 = Inr t" and r: "get_reward e1 = Inr (r, e1\<lparr>time_last := t\<rparr>)"
    using get_reward_total by blast
  obtain i where i: "get_info (e1\<lparr>time_last := t\<rparr>) = Inr i"
    using get_info_total by blast
  show ?thesis
    using assms t r i by (simp add: step_def NESEnv_step_def)
qed

lemma walk_step:
  "\<exists>res e'. step walk_emulator 1 False 0 (with_ram [(0x000E, 8), (0x86, 40)]) = Some (Inr (res, e'))
      \<and> x_position e' = 41"
proof -
  let ?e = "with_ram [(0x000E, 8), (0x86, 40)]"
  define e1 where "e1 = frame_advance walk_emulator 0
    (?e\<lparr>last_frame_x_position := x_position ?e, last_frame_y_position := y_position ?e\<rparr>)"
  have ram1: "ram e1 a = (if a = 0x86 then 41 else if a = 0x000E then 8 else 0)" for a
    by (simp add: e1_def frame_advance_def walk_emulator_def with_ram_ram)
  have t1: "target_world e1 = None"
    by (simp add: e1_def frame_advance_def walk_emulator_def with_ram_def blank_env_def)
  have "\<not> is_dying e1" "\<not> is_busy e1" "\<not> is_world_over e1" "\<not> is_single_stage_env e1"
    by (simp_all add: is_dying_def is_busy_def is_world_over_def is_single_stage_env_def
        player_state_def y_viewport_def BUSY_STATES_def ram1 t1)
  moreover have "skip_change_area e1 = e1"
    by (simp add: skip_change_area_def ram1)
  ultimately have "did_step walk_emulator 1 False e1 = Some (Inr e1)"
    by (simp add: did_step_def skip_end_of_world_def)
  from step_returns [OF this [unfolded e1_def]] obtain res t where
    "step walk_emulator 1 False 0 ?e = Some (Inr (res, e1\<lparr>time_last := t\<rparr>))"
    unfolding e1_def by blast
  moreover have "x_position (e1\<lparr>time_last := t\<rparr>) = 41"
    by (simp add: x_position_def ram1)
  ultimately show ?thesis by blast
qed

text \<open>
  Claim C8. For every completed step, the returned info mapping has exactly the twelve keys
  coins, flag\_get, life, score, stage, status, time, world, x\_pos, y\_pos, x\_speed, y\_speed;
  x\_speed is the current x position minus the x position recorded before the step, and
  y\_speed is the current y position minus the y position recorded before the step.
\<close>

theorem step_info:
  assumes "step fa fuel reset_pending action e = Some (Inr (res, e'))"
  shows "dom (info res) = {''coins'', ''flag_get'', ''life'', ''score'', ''stage'', ''status'',
                           ''time'', ''world'', ''x_pos'', ''y_pos'', ''x_speed'', ''y_speed''}
       \<and> card (dom (info res)) = 12
       \<and> info res ''x_pos'' = Some (IInt (x_position e'))
       \<and> info res ''y_pos'' = Some (IInt (y_position e'))
       \<and> info res ''x_speed'' = Some (IInt (x_position e' - x_position e))
       \<and> info res ''y_speed'' = Some (IInt (y_position e' - y_position e))"
proof -
  define e0 where
    "e0 = e\<lparr>last_frame_x_position := x_position e, last_frame_y_position := y_position e\<rparr>"
  have l0: "last_frame_x_position e0 = x_position e" "last_frame_y_position e0 = y_position e"
    by (simp_all add: e0_def)
  from assms obtain e1 r i where
    e1: "did_step fa fuel reset_pending (frame_advance fa action e0) = Some (Inr e1)"
    and r: "get_reward e1 = Inr (r, e')"
    and i: "get_info e' = Inr i"
    and res: "res = \<lparr>reward = r, terminated = get_terminated e', info = i\<rparr>"
    by (auto simp: step_def NESEnv_step_def e0_def split: option.splits sum.splits prod.splits)
  from did_step_last_frame [OF e1] l0 have l1:
    "last_frame_x_position e1 = x_position e" "last_frame_y_position e1 = y_position e"
    by simp_all
  from get_reward_frame [OF r] obtain t where "e' = e1\<lparr>time_last := t\<rparr>" ..
  with l1 have l2:
    "last_frame_x_position e' = x_position e" "last_frame_y_position e' = y_position e"
    by simp_all
  have inf: "info res = i" by (simp add: res)
  have "card {''coins'', ''flag_get'', ''life'', ''score'', ''stage'', ''status'',
              ''time'', ''world'', ''x_pos'', ''y_pos'', ''x_speed'', ''y_speed''} = (12 :: nat)"
    by simp
  with get_info_keys [OF i] l2 inf show ?thesis by simp
qed

theorem step_info_witness:
  "\<exists>res e'. step walk_emulator 1 False 0 (with_ram [(0x000E, 8), (0x86, 40)]) = Some (Inr (res, e'))
      \<and> dom (info res) = {''coins'', ''flag_get'', ''life'', ''score'', ''stage'', ''status'',
                           ''time'', ''world'', ''x_pos'', ''y_pos'', ''x_speed'', ''y_speed''}
      \<and> info res ''x_pos'' = Some (IInt 41)
      \<and> info res ''x_speed'' = Some (IInt 1)"
proof -
  let ?e = "with_ram [(0x000E, 8), (0x86, 40)]"
  from walk_step obtain res e' where s: "step walk_emulator 1 False 0 ?e = Some (Inr (res, e'))"
    and x: "x_position e' = 41" by blast
  have x0: "x_position ?e = 40" by (simp add: x_position_def with_ram_ram)
  from step_info [OF s] have
    "dom (info res) = {''coins'', ''flag_get'', ''life'', ''score'', ''stage'', ''status'',
                           ''time'', ''world'', ''x_pos'', ''y_pos'', ''x_speed'', ''y_speed''}"
    "info res ''x_pos'' = Some (IInt (x_position e'))"
    "info res ''x_speed'' = Some (IInt (x_position e' - x_position ?e))"
    by simp_all
  with s x x0 show ?thesis by simp
qed

end
